theory Spec2Isabelle
  imports Main
begin

section \<open>JavaScript values used by the engine session\<close>

text \<open>
  Strings are lists of 8-bit characters: the model covers output lines whose code units
  are below 256 (the engine speaks ASCII). Numbers produced by \<open>parseInt\<close> are the
  not-a-number value or an integer; an integer stands for the double nearest to it, which
  is the integer itself up to \<open>2 ^ 53\<close>.
\<close>

datatype jsnum = NaN | Num int

text \<open>\<open>s.startsWith(p)\<close>.\<close>

definition startsWith :: "string \<Rightarrow> string \<Rightarrow> bool" where
  "startsWith s p = (take (length p) s = p)"

text \<open>
  \<open>s.split(' ')\<close>: the string is cut at every single space character. The result is never
  empty; two adjacent spaces give an empty token between them.
\<close>

fun split_sp :: "string \<Rightarrow> string list" where
  "split_sp [] = [[]]"
| "split_sp (c # cs) =
     (if c = CHR '' '' then [] # split_sp cs
      else (case split_sp cs of
              [] \<Rightarrow> [[c]]
            | w # ws \<Rightarrow> (c # w) # ws))"

text \<open>\<open>parts.join(' ')\<close>.\<close>

fun join_sp :: "string list \<Rightarrow> string" where
  "join_sp [] = []"
| "join_sp [w] = w"
| "join_sp (w # v # ws) = w @ CHR '' '' # join_sp (v # ws)"

text \<open>\<open>parts[i]\<close>: an index past the end reads \<open>undefined\<close>, here \<open>None\<close>.\<close>

definition at :: "'a list \<Rightarrow> nat \<Rightarrow> 'a option" where
  "at xs i = (if i < length xs then Some (xs ! i) else None)"

text \<open>\<open>parts[i] || ''\<close>: \<open>undefined\<close> and the empty string both give the empty string.\<close>

definition or_empty :: "string option \<Rightarrow> string" where
  "or_empty v = (case v of None \<Rightarrow> [] | Some t \<Rightarrow> t)"

subsection \<open>parseInt\<close>

text \<open>
  \<open>parseInt(s)\<close> with no radix: leading white space is dropped, then an optional sign, then
  a \<open>0x\<close> or \<open>0X\<close> prefix selects radix 16; the longest run of digits of the radix is the
  value, and an empty run gives not-a-number. What follows the digits is ignored.
\<close>

definition is_ws :: "char \<Rightarrow> bool" where
  "is_ws c = (of_char c \<in> {9, 10, 11, 12, 13, 32, 160 :: nat})"

definition digit_val :: "char \<Rightarrow> nat" where
  "digit_val c =
     (let n = (of_char c :: nat) in
      if 48 \<le> n \<and> n \<le> 57 then n - 48
      else if 97 \<le> n \<and> n \<le> 122 then n - 87
      else if 65 \<le> n \<and> n \<le> 90 then n - 55
      else 36)"

definition is_digit :: "nat \<Rightarrow> char \<Rightarrow> bool" where
  "is_digit radix c = (digit_val c < radix)"

definition digits_value :: "nat \<Rightarrow> string \<Rightarrow> int" where
  "digits_value radix ds = foldl (\<lambda>acc c. acc * int radix + int (digit_val c)) 0 ds"

definition parseInt :: "string \<Rightarrow> jsnum" where
  "parseInt str =
     (let s0 = dropWhile is_ws str;
          neg = (case s0 of [] \<Rightarrow> False | c # _ \<Rightarrow> c = CHR ''-'');
          s1 = (case s0 of [] \<Rightarrow> [] | c # cs \<Rightarrow> if c = CHR ''+'' \<or> c = CHR ''-'' then cs else s0);
          hex = (take 2 s1 = ''0x'' \<or> take 2 s1 = ''0X'');
          radix = (if hex then 16 else 10);
          s2 = (if hex then drop 2 s1 else s1);
          z = takeWhile (is_digit radix) s2
      in if z = [] then NaN
         else Num ((if neg then - 1 else 1) * digits_value radix z))"

section \<open>Data model of the session\<close>

text \<open>A score object \<open>{ type, value }\<close>; the type is whatever token followed \<open>score\<close>.\<close>

record score =
  sc_type :: string
  sc_value :: jsnum

text \<open>
  \<open>StockfishInfo\<close> as the parser builds it: only \<open>pv\<close> is always present, every other
  property exists once its key was seen (\<open>None\<close> is an absent property).
\<close>

record info =
  depth :: "jsnum option"
  seldepth :: "jsnum option"
  time :: "jsnum option"
  nodes :: "jsnum option"
  pv :: string
  score :: "score option"
  nps :: "jsnum option"
  hashfull :: "jsnum option"
  cpuload :: "jsnum option"
  multipv :: "jsnum option"

text \<open>
  \<open>StockfishLine\<close> as stored by the output handler (fields prefixed with \<open>l_\<close>); the depth
  is copied from the info event and is \<open>undefined\<close> when the event has none.
\<close>

record sfline =
  l_pv :: string
  l_score :: score
  l_depth :: "jsnum option"
  l_nodes :: jsnum
  l_time :: jsnum
  l_nps :: jsnum

text \<open>
  \<open>StockfishAnalysis\<close>. The \<open>lines\<close> array is sparse and is only ever written by index, so
  it is a map from the index to the stored line. An index that is no array index (a negative
  one) names an ordinary property of the array, written and read back in the same way.
\<close>

record analysis =
  bestmove :: string
  ponder :: "string option"
  lines :: "int \<rightharpoonup> sfline"

datatype js_error = Error string

datatype promise_state = Pending | Settled | Failed js_error

text \<open>
  The private fields of \<open>Stockfish\<close>. \<open>process\<close> tells whether the handle is set, \<open>written\<close>
  is what was written to the engine's input, an \<open>analysisPromise\<close> is identified by the
  number of its resolver.
\<close>

record session =
  process :: bool
  written :: "string list"
  readyPromise :: promise_state
  isReady :: bool
  analysisPromise :: "nat option"
  currentAnalysis :: "analysis option"

text \<open>What an output line makes the session do that its listeners can observe.\<close>

datatype event =
    Output string
  | Info info
  | Resolved nat analysis
  | Ready
  | ErrorEvent js_error

section \<open>The info-line parser\<close>

definition empty_info :: info where
  "empty_info =
     \<lparr>depth = None, seldepth = None, time = None, nodes = None, pv = [], score = None,
      nps = None, hashfull = None, cpuload = None, multipv = None\<rparr>"

definition recognized :: "string list" where
  "recognized = [''depth'', ''seldepth'', ''time'', ''nodes'', ''nps'', ''hashfull'',
                 ''cpuload'', ''multipv'', ''score'', ''pv'']"

text \<open>
  The \<open>for\<close> loop of \<open>#parseInfo\<close>, from index \<open>i\<close>: each case of the \<open>switch\<close> adds its
  own increment to the loop's \<open>i++\<close>; \<open>pv\<close> sets \<open>i\<close> to the length, which ends the loop.
\<close>

function parseInfo_loop :: "string list \<Rightarrow> nat \<Rightarrow> info \<Rightarrow> info" where
  "parseInfo_loop parts i info =
     (if i < length parts then
        (let valueStr = or_empty (at parts (i + 1)); key = parts ! i in
         if key = ''depth'' then
           parseInfo_loop parts (i + 2) (info\<lparr>depth := Some (parseInt valueStr)\<rparr>)
         else if key = ''seldepth'' then
           parseInfo_loop parts (i + 2) (info\<lparr>seldepth := Some (parseInt valueStr)\<rparr>)
         else if key = ''time'' then
           parseInfo_loop parts (i + 2) (info\<lparr>time := Some (parseInt valueStr)\<rparr>)
         else if key = ''nodes'' then
           parseInfo_loop parts (i + 2) (info\<lparr>nodes := Some (parseInt valueStr)\<rparr>)
         else if key = ''nps'' then
           parseInfo_loop parts (i + 2) (info\<lparr>nps := Some (parseInt valueStr)\<rparr>)
         else if key = ''hashfull'' then
           parseInfo_loop parts (i + 2) (info\<lparr>hashfull := Some (parseInt valueStr)\<rparr>)
         else if key = ''cpuload'' then
           parseInfo_loop parts (i + 2) (info\<lparr>cpuload := Some (parseInt valueStr)\<rparr>)
         else if key = ''multipv'' then
           parseInfo_loop parts (i + 2) (info\<lparr>multipv := Some (parseInt valueStr)\<rparr>)
         else if key = ''score'' then
           parseInfo_loop parts (i + 3)
             (info\<lparr>score := Some \<lparr>sc_type = valueStr,
                                  sc_value = parseInt (or_empty (at parts (i + 2)))\<rparr>\<rparr>)
         else if key = ''pv'' then
           parseInfo_loop parts (length parts + 1) (info\<lparr>pv := join_sp (drop (i + 1) parts)\<rparr>)
         else parseInfo_loop parts (i + 1) info)
      else info)"
  by pat_completeness auto
termination
  by (relation "measure (\<lambda>(parts, i, info). length parts - i)") auto

declare parseInfo_loop.simps [simp del]

text \<open>
  \<open>#parseInfo\<close>: its declared result is an info or \<open>null\<close>; the body always returns the
  object it built.
\<close>

definition parseInfo :: "string \<Rightarrow> info option" where
  "parseInfo line = Some (parseInfo_loop (split_sp line) 1 (empty_info\<lparr>pv := []\<rparr>))"

section \<open>The output handler\<close>

text \<open>\<open>info.multipv || 1\<close>: an absent, not-a-number or zero value gives 1.\<close>

definition or_one :: "jsnum option \<Rightarrow> int" where
  "or_one v = (case v of None \<Rightarrow> 1 | Some NaN \<Rightarrow> 1 | Some (Num n) \<Rightarrow> if n = 0 then 1 else n)"

text \<open>\<open>x || 0\<close> on an optional number.\<close>

definition or_zero :: "jsnum option \<Rightarrow> jsnum" where
  "or_zero v = (case v of None \<Rightarrow> Num 0 | Some NaN \<Rightarrow> Num 0 | Some (Num n) \<Rightarrow> Num n)"

text \<open>\<open>info.score || { value: 0, type: 'cp' }\<close>: a score object is always truthy.\<close>

definition or_cp :: "score option \<Rightarrow> score" where
  "or_cp v = (case v of None \<Rightarrow> \<lparr>sc_type = ''cp'', sc_value = Num 0\<rparr> | Some sc \<Rightarrow> sc)"

text \<open>
  \<open>#handleOutput\<close>. The result is the list of what was emitted or resolved, in order, and
  the session afterwards. Listeners are observers: they see the events and do not write to
  the session's private fields.
\<close>

definition handleOutput :: "string \<Rightarrow> session \<Rightarrow> event list \<times> session" where
  "handleOutput line s =
     (if startsWith line ''info'' then
        (case parseInfo line of
           None \<Rightarrow> ([Output line], s)
         | Some info \<Rightarrow>
             (case currentAnalysis s of
                None \<Rightarrow> ([Output line, Info info], s)
              | Some a \<Rightarrow>
                  (let multipv_n = or_one (multipv info);
                       index = multipv_n - 1
                   in ([Output line, Info info],
                       s\<lparr>currentAnalysis := Some (a\<lparr>lines := (lines a)(index \<mapsto>
                            \<lparr>l_pv = pv info,
                             l_score = or_cp (score info),
                             l_depth = depth info,
                             l_nodes = or_zero (nodes info),
                             l_time = or_zero (time info),
                             l_nps = or_zero (nps info)\<rparr>)\<rparr>)\<rparr>))))
      else if startsWith line ''bestmove'' then
        (case (analysisPromise s, currentAnalysis s) of
           (Some r, Some a) \<Rightarrow>
             (let parts = split_sp line;
                  a1 = a\<lparr>bestmove := or_empty (at parts 1)\<rparr>;
                  a2 = (if at parts 2 = Some ''ponder'' then a1\<lparr>ponder := at parts 3\<rparr> else a1)
              in ([Output line, Resolved r a2],
                  s\<lparr>analysisPromise := None, currentAnalysis := None\<rparr>))
         | _ \<Rightarrow> ([Output line], s))
      else ([Output line], s))"

section \<open>Commands of the session\<close>

text \<open>
  An asynchronous method is run from a given state as far as it gets without a further
  event from the engine: it is suspended at an \<open>await\<close> whose promise is still pending, it
  is rejected with an error, or it is done.
\<close>

datatype outcome = Suspended | Rejected js_error | Done

definition waitReady :: "session \<Rightarrow> outcome" where
  "waitReady s =
     (if isReady s then Done
      else (case readyPromise s of
              Pending \<Rightarrow> Suspended
            | Settled \<Rightarrow> Done
            | Failed e \<Rightarrow> Rejected e))"

text \<open>
  \<open>send\<close>: a command with an acknowledgement (\<open>uci\<close>, \<open>isready\<close>) is written and then
  waits for the engine's answer.
\<close>

definition send_write :: "string \<Rightarrow> session \<Rightarrow> outcome \<times> session" where
  "send_write command s =
     (let target = (if command = ''uci'' then Some ''uciok''
                    else if command = ''isready'' then Some ''readyok'' else None)
      in if \<not> process s then (Rejected (Error ''Engine process stdin is not available''), s)
         else (let s' = s\<lparr>written := written s @ [command @ [CHR 0x0A]]\<rparr>
               in if target \<noteq> None then (Suspended, s') else (Done, s')))"

definition send :: "string \<Rightarrow> session \<Rightarrow> outcome \<times> session" where
  "send command s =
     (if command \<noteq> ''uci'' then
        (case waitReady s of
           Done \<Rightarrow> send_write command s
         | r \<Rightarrow> (r, s))
      else send_write command s)"

text \<open>A whole number in a template literal.\<close>

function digits_of :: "nat \<Rightarrow> string" where
  "digits_of n =
     (if n < 10 then [char_of (48 + n)] else digits_of (n div 10) @ [char_of (48 + n mod 10)])"
  by pat_completeness auto
termination
  by (relation "measure id") auto

declare digits_of.simps [simp del]

definition show_int :: "int \<Rightarrow> string" where
  "show_int i = (if i < 0 then CHR ''-'' # digits_of (nat (- i)) else digits_of (nat i))"

text \<open>
  \<open>analyze\<close> is an asynchronous function: it runs in pieces, each from one \<open>await\<close> to the
  next, and between two pieces other calls and other events of the session can run. A call
  in flight is at one of these places:
  \<^item> \<open>AtReady\<close>: at \<open>await this.waitReady()\<close>, before the guard;
  \<^item> \<open>AtSetoption\<close>: the guard is passed and \<open>send\<close> of the MultiPV option is at its own
    \<open>await this.waitReady()\<close>;
  \<^item> \<open>AtRegister\<close>: the option is written and the call waits to resume after
    \<open>await this.send(...)\<close>;
  \<^item> \<open>AtPosition\<close>: the analysis and its resolver are registered, the promise is returned,
    and \<open>send\<close> of the position is at its \<open>await this.waitReady()\<close>;
  \<^item> \<open>AtGo\<close>: the position is written, the search command is not yet;
  \<^item> \<open>Finished\<close>: the call has nothing left to run;
  \<^item> \<open>Thrown e\<close>: the call's promise is rejected with \<open>e\<close>.
  The numbers of a call are whole numbers below \<open>10 ^ 21\<close> in size, which a template literal
  prints in full.
\<close>

datatype stage = AtReady | AtSetoption | AtRegister | AtPosition | AtGo | Finished | Thrown js_error

record call =
  c_fen :: string
  c_depth :: int
  c_multipv :: int
  c_resolver :: nat
  c_stage :: stage

text \<open>
  Calling \<open>analyze\<close> runs it up to its first \<open>await\<close>, which changes nothing; \<open>r\<close> is the
  resolver of the promise the call will return.
\<close>

definition analyze :: "string \<Rightarrow> int \<Rightarrow> int \<Rightarrow> nat \<Rightarrow> call" where
  "analyze fen depth_n multipv_n r =
     \<lparr>c_fen = fen, c_depth = depth_n, c_multipv = multipv_n, c_resolver = r, c_stage = AtReady\<rparr>"

text \<open>
  One piece of a call: from where it is to its next \<open>await\<close>. A call whose awaited promise
  is still pending stays where it is. The position and search commands are sent without
  being awaited by the call, so their failure is not the call's.
\<close>

definition analyze_resume :: "call \<Rightarrow> session \<Rightarrow> call \<times> session" where
  "analyze_resume c s =
     (case c_stage c of
        AtReady \<Rightarrow>
          (case waitReady s of
             Suspended \<Rightarrow> (c, s)
           | Rejected e \<Rightarrow> (c\<lparr>c_stage := Thrown e\<rparr>, s)
           | Done \<Rightarrow>
               (if analysisPromise s \<noteq> None
                then (c\<lparr>c_stage := Thrown (Error ''Analysis already in progress'')\<rparr>, s)
                else (c\<lparr>c_stage := AtSetoption\<rparr>, s)))
      | AtSetoption \<Rightarrow>
          (case send (''setoption name MultiPV value '' @ show_int (c_multipv c)) s of
             (Suspended, s') \<Rightarrow> (c, s')
           | (Rejected e, s') \<Rightarrow> (c\<lparr>c_stage := Thrown e\<rparr>, s')
           | (Done, s') \<Rightarrow> (c\<lparr>c_stage := AtRegister\<rparr>, s'))
      | AtRegister \<Rightarrow>
          (c\<lparr>c_stage := AtPosition\<rparr>,
           s\<lparr>currentAnalysis := Some \<lparr>bestmove = [], ponder = None, lines = Map.empty\<rparr>,
             analysisPromise := Some (c_resolver c)\<rparr>)
      | AtPosition \<Rightarrow>
          (case send (''position fen '' @ c_fen c) s of
             (Suspended, s') \<Rightarrow> (c, s')
           | (Rejected e, s') \<Rightarrow> (c\<lparr>c_stage := Finished\<rparr>, s')
           | (Done, s') \<Rightarrow> (c\<lparr>c_stage := AtGo\<rparr>, s'))
      | AtGo \<Rightarrow>
          (case send (''go depth '' @ show_int (c_depth c)) s of
             (Suspended, s') \<Rightarrow> (c, s')
           | (Rejected e, s') \<Rightarrow> (c\<lparr>c_stage := Finished\<rparr>, s')
           | (Done, s') \<Rightarrow> (c\<lparr>c_stage := Finished\<rparr>, s'))
      | Finished \<Rightarrow> (c, s)
      | Thrown e \<Rightarrow> (c, s))"

text \<open>
  Several calls in flight on one session: \<open>analyze_resumes order calls s\<close> runs one piece of
  the call at each position that \<open>order\<close> names, in that order.
\<close>

fun analyze_resumes :: "nat list \<Rightarrow> call list \<Rightarrow> session \<Rightarrow> call list \<times> session" where
  "analyze_resumes [] calls s = (calls, s)"
| "analyze_resumes (i # order) calls s =
     (if i < length calls
      then analyze_resumes order (calls[i := fst (analyze_resume (calls ! i) s)])
             (snd (analyze_resume (calls ! i) s))
      else analyze_resumes order calls s)"

text \<open>
  \<open>terminate\<close> of a session. \<open>kill\<close> is what the runtime's \<open>process.kill()\<close> does: it returns
  (\<open>None\<close>) or throws; when it throws, the fields after it are not written.
\<close>

definition terminate :: "js_error option \<Rightarrow> session \<Rightarrow> js_error option \<times> session" where
  "terminate kill s =
     (if process s then
        (case kill of
           Some e \<Rightarrow> (Some e, s)
         | None \<Rightarrow> (None, s\<lparr>process := False, isReady := False\<rparr>))
      else (None, s\<lparr>isReady := False\<rparr>))"

text \<open>
  The session a constructor call leaves behind: the process is spawned and the handshake
  command written, the handshake promise pending.
\<close>

definition new_session :: session where
  "new_session =
     \<lparr>process = True, written = [''uci'' @ [CHR 0x0A]], readyPromise = Pending, isReady = False,
      analysisPromise = None, currentAnalysis = None\<rparr>"

text \<open>
  The rest of \<open>#initialize\<close>, run when the handshake's acknowledgement has arrived: the
  session is ready and the handshake promise settles.
\<close>

definition initialize_resume :: "session \<Rightarrow> event list \<times> session" where
  "initialize_resume s = ([Ready], s\<lparr>isReady := True, readyPromise := Settled\<rparr>)"

text \<open>The process's \<open>exit\<close> handler; \<open>code\<close> is \<open>None\<close> for \<open>null\<close>.\<close>

definition on_exit :: "int option \<Rightarrow> session \<Rightarrow> event list \<times> session" where
  "on_exit code s =
     (case code of
        None \<Rightarrow> ([], s\<lparr>isReady := False\<rparr>)
      | Some c \<Rightarrow>
          (if c \<noteq> 0
           then ([ErrorEvent (Error (''Engine process exited with code '' @ show_int c))],
                 s\<lparr>isReady := False\<rparr>)
           else ([], s\<lparr>isReady := False\<rparr>)))"

text \<open>A session whose handshake is done.\<close>

definition ready_session :: session where
  "ready_session = snd (initialize_resume new_session)"

text \<open>
  For comparison with the output handler, the spec's wording ``split on whitespace'': the
  tokens of a line are its maximal runs of characters that are not white space.
\<close>

fun split_on :: "(char \<Rightarrow> bool) \<Rightarrow> string \<Rightarrow> string list" where
  "split_on sep [] = [[]]"
| "split_on sep (c # cs) =
     (if sep c then [] # split_on sep cs
      else (case split_on sep cs of
              [] \<Rightarrow> [[c]]
            | w # ws \<Rightarrow> (c # w) # ws))"

definition split_whitespace_spec :: "string \<Rightarrow> string list" where
  "split_whitespace_spec s = filter (\<lambda>w. w \<noteq> []) (split_on is_ws s)"

text \<open>A session in the middle of an analysis whose promise has resolver 0.\<close>

definition analyzing_session :: session where
  "analyzing_session =
     \<lparr>process = True, written = [], readyPromise = Settled, isReady = True,
      analysisPromise = Some 0,
      currentAnalysis = Some \<lparr>bestmove = [], ponder = None, lines = Map.empty\<rparr>\<rparr>"


section \<open>The session pool\<close>

text \<open>
  Sessions are objects: \<open>heap\<close> holds every session the pool has constructed, and a session
  is named by its position there. \<open>free\<close> is the array of idle sessions, \<open>queue\<close> the array
  of waiting resolvers, \<open>all\<close> the \<open>Set\<close> of members in insertion order. A queued resolver
  is named by the number of the promise that \<open>acquire\<close> created for it; \<open>promises\<close> counts
  these.
\<close>

record pool =
  heap :: "session list"
  free :: "nat list"
  queue :: "nat list"
  all :: "nat list"
  promises :: nat

text \<open>\<open>Handed w e\<close>: the resolver of promise \<open>w\<close> was called with session \<open>e\<close>.\<close>

datatype pool_event = Handed nat nat

text \<open>\<open>Set.add\<close> and \<open>Set.delete\<close> on the insertion-ordered members.\<close>

definition set_add :: "nat \<Rightarrow> nat list \<Rightarrow> nat list" where
  "set_add x xs = (if x \<in> set xs then xs else xs @ [x])"

definition set_delete :: "nat \<Rightarrow> nat list \<Rightarrow> nat list" where
  "set_delete x xs = removeAll x xs"

definition makeAvailable :: "nat \<Rightarrow> pool \<Rightarrow> pool_event list \<times> pool" where
  "makeAvailable engine p =
     (if length (queue p) > 0
      then ([Handed (hd (queue p)) engine], p\<lparr>queue := tl (queue p)\<rparr>)
      else ([], p\<lparr>free := free p @ [engine]\<rparr>))"

text \<open>\<open>#addWorker\<close>: the new session is the next object of the heap.\<close>

definition addWorker :: "pool \<Rightarrow> pool_event list \<times> pool" where
  "addWorker p =
     (let engine = length (heap p);
          p1 = p\<lparr>heap := heap p @ [new_session]\<rparr>;
          p2 = p1\<lparr>all := set_add engine (all p1)\<rparr>
      in makeAvailable engine p2)"

text \<open>
  \<open>#replaceWorker\<close>. \<open>kill e\<close> is what \<open>process.kill()\<close> of session \<open>e\<close> does; an error thrown
  by the dead session's \<open>terminate\<close> is caught and dropped.
\<close>

definition replaceWorker :: "(nat \<Rightarrow> js_error option) \<Rightarrow> nat \<Rightarrow> pool \<Rightarrow> pool_event list \<times> pool" where
  "replaceWorker kill deadEngine p =
     (let p1 = p\<lparr>all := set_delete deadEngine (all p)\<rparr>;
          p2 = p1\<lparr>free := filter (\<lambda>e. e \<noteq> deadEngine) (free p1)\<rparr>;
          p3 = (case at (heap p2) deadEngine of
                  None \<Rightarrow> p2
                | Some s \<Rightarrow>
                    (case terminate (kill deadEngine) s of
                       (Some err, _) \<Rightarrow> p2
                     | (None, s') \<Rightarrow> p2\<lparr>heap := (heap p2)[deadEngine := s']\<rparr>))
      in addWorker p3)"

text \<open>The constructor: \<open>size\<close> calls of \<open>#addWorker\<close> on the empty pool.\<close>

definition empty_pool :: pool where
  "empty_pool = \<lparr>heap = [], free = [], queue = [], all = [], promises = 0\<rparr>"

fun add_workers :: "nat \<Rightarrow> pool \<Rightarrow> pool" where
  "add_workers 0 p = p"
| "add_workers (Suc n) p = add_workers n (snd (addWorker p))"

definition new_pool :: "nat \<Rightarrow> pool" where
  "new_pool size_n = add_workers size_n empty_pool"

text \<open>
  \<open>acquire\<close> returns a session at once, or the promise it has queued the resolver of.
\<close>

datatype acquired = Got nat | Waiting nat

definition acquire :: "pool \<Rightarrow> acquired \<times> pool" where
  "acquire p =
     (if length (free p) > 0
      then (Got (last (free p)), p\<lparr>free := butlast (free p)\<rparr>)
      else (Waiting (promises p),
            p\<lparr>queue := queue p @ [promises p], promises := Suc (promises p)\<rparr>))"

definition release :: "nat \<Rightarrow> pool \<Rightarrow> pool_event list \<times> pool" where
  "release engine p = (if engine \<in> set (all p) then makeAvailable engine p else ([], p))"

text \<open>
  \<open>all.forEach(e => e.terminate())\<close>: an error thrown by a session's \<open>terminate\<close> ends the
  iteration, the sessions before it stay terminated.
\<close>

fun terminate_each :: "(nat \<Rightarrow> js_error option) \<Rightarrow> nat list \<Rightarrow> session list \<Rightarrow> js_error option \<times> session list" where
  "terminate_each kill [] h = (None, h)"
| "terminate_each kill (e # es) h =
     (case at h e of
        None \<Rightarrow> terminate_each kill es h
      | Some s \<Rightarrow>
          (case terminate (kill e) s of
             (Some err, _) \<Rightarrow> (Some err, h)
           | (None, s') \<Rightarrow> terminate_each kill es (h[e := s'])))"

text \<open>\<open>terminate\<close> of the pool; it calls no resolver. The first component is a thrown error.\<close>

definition pool_terminate :: "(nat \<Rightarrow> js_error option) \<Rightarrow> pool \<Rightarrow> js_error option \<times> pool" where
  "pool_terminate kill p =
     (case terminate_each kill (all p) (heap p) of
        (Some err, h) \<Rightarrow> (Some err, p\<lparr>heap := h\<rparr>)
      | (None, h) \<Rightarrow> (None, p\<lparr>heap := h, all := [], free := [], queue := []\<rparr>))"

text \<open>
  What can happen to a pool: the three calls of its interface, and an error notification
  of a session it has constructed, which runs the listener that \<open>#addWorker\<close> registered.
\<close>

datatype pool_op = Acquire | Release nat | Terminate | EngineError nat

definition pool_step :: "(nat \<Rightarrow> js_error option) \<Rightarrow> pool_op \<Rightarrow> pool \<Rightarrow> pool_event list \<times> pool" where
  "pool_step kill op p =
     (case op of
        Acquire \<Rightarrow> ([], snd (acquire p))
      | Release e \<Rightarrow> release e p
      | Terminate \<Rightarrow> ([], snd (pool_terminate kill p))
      | EngineError e \<Rightarrow> (if e < length (heap p) then replaceWorker kill e p else ([], p)))"

fun pool_run :: "(nat \<Rightarrow> js_error option) \<Rightarrow> pool_op list \<Rightarrow> pool \<Rightarrow> pool_event list \<times> pool" where
  "pool_run kill [] p = ([], p)"
| "pool_run kill (op # ops) p =
     (let r1 = pool_step kill op p; r2 = pool_run kill ops (snd r1)
      in (fst r1 @ fst r2, snd r2))"

text \<open>Whether an operation is a call of the pool's interface.\<close>

fun is_call :: "pool_op \<Rightarrow> bool" where
  "is_call (EngineError e) = False"
| "is_call op = True"



text \<open>
  The representation invariant: the members are a set of constructed sessions, and every
  queued resolver belongs to a promise already created.
\<close>

definition pool_wf :: "pool \<Rightarrow> bool" where
  "pool_wf p =
     (distinct (all p) \<and> list_all (\<lambda>e. e < length (heap p)) (all p)
      \<and> list_all (\<lambda>w. w < promises p) (queue p))"

section \<open>Properties of the string operations\<close>

text \<open>
  The model of \<open>split(' ')\<close> is determined by two facts: joining the tokens with single
  spaces gives the line back, and no token holds a space.
\<close>
lemma split_sp_nonempty: "split_sp s \<noteq> []"
  by (induction s) (auto split: list.splits)

lemma join_split_sp: "join_sp (split_sp s) = s"
proof (induction s)
  case Nil show ?case by simp
next
  case (Cons c cs)
  then show ?case
    by (cases "split_sp cs")
      (auto simp: split_sp_nonempty split: list.splits,
       (metis join_sp.simps list.exhaust append_Cons append_Nil)+)
qed

lemma split_sp_no_space: "w \<in> set (split_sp s) \<Longrightarrow> CHR '' '' \<notin> set w"
  by (induction s arbitrary: w) (auto split: list.splits if_splits)

section \<open>Properties of the info-line parser\<close>

text \<open>
  C3. The parser applied to
  \<open>info depth 12 seldepth 18 score cp 34 nodes 500000 nps 250000 pv e2e4 e7e5\<close> gives depth 12,
  seldepth 18, score \<open>cp\<close> 34, nodes 500000, nps 250000 and pv \<open>e2e4 e7e5\<close>; applied to
  \<open>info depth 5 score mate -3 pv g1f3\<close> it gives score \<open>mate\<close> -3, depth 5 and pv \<open>g1f3\<close>.
  Every other property is absent in both.
\<close>
theorem parseInfo_examples:
  "parseInfo ''info depth 12 seldepth 18 score cp 34 nodes 500000 nps 250000 pv e2e4 e7e5'' =
     Some \<lparr>depth = Some (Num 12), seldepth = Some (Num 18), time = None,
           nodes = Some (Num 500000), pv = ''e2e4 e7e5'',
           score = Some \<lparr>sc_type = ''cp'', sc_value = Num 34\<rparr>,
           nps = Some (Num 250000), hashfull = None, cpuload = None, multipv = None\<rparr>
   \<and> parseInfo ''info depth 5 score mate -3 pv g1f3'' =
     Some \<lparr>depth = Some (Num 5), seldepth = None, time = None, nodes = None,
           pv = ''g1f3'', score = Some \<lparr>sc_type = ''mate'', sc_value = Num (- 3)\<rparr>,
           nps = None, hashfull = None, cpuload = None, multipv = None\<rparr>"
  by code_simp

lemma loop_skip:
  assumes "i < length parts" "parts ! i \<notin> set recognized"
  shows "parseInfo_loop parts i info = parseInfo_loop parts (i + 1) info"
  using assms by (subst parseInfo_loop.simps) (simp add: recognized_def Let_def)

text \<open>
  C4. A token in key position that is none of the recognized keys is skipped and the scan
  goes on at the very next token, which is read as a key; no value token is consumed, and
  the parse of the line still returns an info.
\<close>
theorem parseInfo_skips_unrecognized:
  assumes "i < length (split_sp line)" and "split_sp line ! i \<notin> set recognized"
  shows "parseInfo_loop (split_sp line) i info = parseInfo_loop (split_sp line) (Suc i) info
         \<and> parseInfo line \<noteq> None"
  using assms by (simp add: loop_skip parseInfo_def)

text \<open>
  The line \<open>info tbhits depth 7\<close>: \<open>tbhits\<close> is skipped, \<open>depth\<close> after it is read as a key.
\<close>

theorem parseInfo_skips_unrecognized_witness:
  "1 < length (split_sp ''info tbhits depth 7'')
   \<and> split_sp ''info tbhits depth 7'' ! 1 \<notin> set recognized
   \<and> parseInfo_loop (split_sp ''info tbhits depth 7'') 1 empty_info
       = parseInfo_loop (split_sp ''info tbhits depth 7'') (Suc 1) empty_info
   \<and> parseInfo_loop (split_sp ''info tbhits depth 7'') (Suc 1) empty_info
       = empty_info\<lparr>depth := Some (Num 7)\<rparr>
   \<and> parseInfo ''info tbhits depth 7'' \<noteq> None"
proof -
  have h1: "1 < length (split_sp ''info tbhits depth 7'')" by code_simp
  have h2: "split_sp ''info tbhits depth 7'' ! 1 \<notin> set recognized" by code_simp
  have h3: "parseInfo_loop (split_sp ''info tbhits depth 7'') (Suc 1) empty_info
       = empty_info\<lparr>depth := Some (Num 7)\<rparr>" by code_simp
  from parseInfo_skips_unrecognized [OF h1 h2, of empty_info] h1 h2 h3 show ?thesis by blast
qed

lemma loop_pv: "''pv'' \<notin> set parts \<Longrightarrow> pv (parseInfo_loop parts i info) = pv info"
proof (induction parts i info rule: parseInfo_loop.induct)
  case (1 parts i info)
  show ?case
  proof (cases "i < length parts")
    case False
    then show ?thesis by (subst parseInfo_loop.simps) simp
  next
    case True
    then have "parts ! i \<noteq> ''pv''" using "1.prems" by (metis nth_mem)
    with True 1 show ?thesis
      by (subst parseInfo_loop.simps) (simp add: Let_def)
  qed
qed

lemma loop_depth: "''depth'' \<notin> set parts \<Longrightarrow> depth (parseInfo_loop parts i info) = depth info"
proof (induction parts i info rule: parseInfo_loop.induct)
  case (1 parts i info)
  show ?case
  proof (cases "i < length parts")
    case False
    then show ?thesis by (subst parseInfo_loop.simps) simp
  next
    case True
    then have "parts ! i \<noteq> ''depth''" using "1.prems" by (metis nth_mem)
    with True 1 show ?thesis
      by (subst parseInfo_loop.simps) (simp add: Let_def)
  qed
qed

text \<open>
  C8. The parser returns an info for every line, never \<open>null\<close>; so every output line that
  begins with \<open>info\<close> makes the session emit the raw line and then an info event, whatever
  the session's state. The event's \<open>pv\<close> is the empty string when no token is \<open>pv\<close>, and
  it has no \<open>depth\<close> when no token is \<open>depth\<close>.
\<close>
theorem parseInfo_never_null:
  "\<exists>info. parseInfo line = Some info
     \<and> (startsWith line ''info'' \<longrightarrow> fst (handleOutput line s) = [Output line, Info info])
     \<and> (''pv'' \<notin> set (split_sp line) \<longrightarrow> pv info = [])
     \<and> (''depth'' \<notin> set (split_sp line) \<longrightarrow> depth info = None)"
  by (auto simp: parseInfo_def handleOutput_def Let_def loop_pv loop_depth empty_info_def
      split: option.splits)

text \<open>The line \<open>info string hello\<close> has no recognized key at all.\<close>

theorem parseInfo_never_null_witness:
  "startsWith ''info string hello'' ''info''
   \<and> ''pv'' \<notin> set (split_sp ''info string hello'')
   \<and> ''depth'' \<notin> set (split_sp ''info string hello'')
   \<and> parseInfo ''info string hello'' = Some empty_info
   \<and> fst (handleOutput ''info string hello'' new_session) = [Output ''info string hello'', Info empty_info]
   \<and> pv empty_info = [] \<and> depth empty_info = None"
proof -
  have h1: "startsWith ''info string hello'' ''info''" by code_simp
  have h2: "''pv'' \<notin> set (split_sp ''info string hello'')" by code_simp
  have h3: "''depth'' \<notin> set (split_sp ''info string hello'')" by code_simp
  have h4: "parseInfo ''info string hello'' = Some empty_info" by code_simp
  from parseInfo_never_null [of "''info string hello''" new_session] h1 h2 h3 h4
  show ?thesis by (auto simp: empty_info_def)
qed

section \<open>Properties of the output handler\<close>



text \<open>
  C1, as amended. For a line that begins with \<open>bestmove\<close>, processed while an analysis is
  active: the line is cut at every single space character; the best move becomes token 1,
  or the empty string when there is none; the ponder move becomes token 3 exactly when
  token 2 is \<open>ponder\<close>; the resolver of the analysis is called once, with the result so
  completed, after the raw line was emitted; and the active analysis is cleared. With no
  active analysis the line is only emitted and the session does not change.
\<close>
theorem bestmove_finalizes_analysis:
  assumes "startsWith line ''bestmove''"
  shows "(analysisPromise s = Some r \<and> currentAnalysis s = Some a \<longrightarrow>
            handleOutput line s =
              ([Output line,
                Resolved r (a\<lparr>bestmove := (case at (split_sp line) 1 of None \<Rightarrow> [] | Some t \<Rightarrow> t),
                               ponder := (if at (split_sp line) 2 = Some ''ponder''
                                          then at (split_sp line) 3 else ponder a)\<rparr>)],
               s\<lparr>analysisPromise := None, currentAnalysis := None\<rparr>))
       \<and> (analysisPromise s = None \<or> currentAnalysis s = None \<longrightarrow>
            handleOutput line s = ([Output line], s))"
proof -
  have ni: "\<not> startsWith line ''info''"
    using assms by (auto simp: startsWith_def) (cases line; simp)
  show ?thesis using assms ni
    by (auto simp: handleOutput_def Let_def or_empty_def split: option.splits)
qed

text \<open>The line \<open>bestmove e2e4 ponder e7e5\<close>, with an analysis active and with none.\<close>
theorem bestmove_finalizes_analysis_witness:
  "startsWith ''bestmove e2e4 ponder e7e5'' ''bestmove''
   \<and> analysisPromise analyzing_session = Some 0
   \<and> currentAnalysis analyzing_session = Some \<lparr>bestmove = [], ponder = None, lines = Map.empty\<rparr>
   \<and> handleOutput ''bestmove e2e4 ponder e7e5'' analyzing_session =
       ([Output ''bestmove e2e4 ponder e7e5'',
         Resolved 0 \<lparr>bestmove = ''e2e4'', ponder = Some ''e7e5'', lines = Map.empty\<rparr>],
        analyzing_session\<lparr>analysisPromise := None, currentAnalysis := None\<rparr>)
   \<and> handleOutput ''bestmove e2e4 ponder e7e5'' new_session =
       ([Output ''bestmove e2e4 ponder e7e5''], new_session)"
proof -
  have h: "startsWith ''bestmove e2e4 ponder e7e5'' ''bestmove''" by code_simp
  have p: "analysisPromise analyzing_session = Some 0"
    and c: "currentAnalysis analyzing_session = Some \<lparr>bestmove = [], ponder = None, lines = Map.empty\<rparr>"
    by (simp_all add: analyzing_session_def)
  have n: "analysisPromise new_session = None" by (simp add: new_session_def)
  from bestmove_finalizes_analysis [OF h, of analyzing_session 0 "\<lparr>bestmove = [], ponder = None, lines = Map.empty\<rparr>"]
       bestmove_finalizes_analysis [OF h, of new_session]
  show ?thesis using h p c n by (simp add: at_def)
qed

text \<open>
  C1 as it was stated speaks of splitting on whitespace. With a tab after the keyword, or
  with two spaces, the handler finds no token 1 (or an empty one) and resolves with an empty
  best move, while the whitespace-separated token 1 of the line is \<open>e2e4\<close>.
\<close>
theorem bestmove_whitespace_counterexample:
  "fst (handleOutput (''bestmove'' @ [CHR 0x09] @ ''e2e4'') analyzing_session) =
     [Output (''bestmove'' @ [CHR 0x09] @ ''e2e4''),
      Resolved 0 \<lparr>bestmove = [], ponder = None, lines = Map.empty\<rparr>]
   \<and> at (split_whitespace_spec (''bestmove'' @ [CHR 0x09] @ ''e2e4'')) 1 = Some ''e2e4''
   \<and> fst (handleOutput ''bestmove  e2e4'' analyzing_session) =
     [Output ''bestmove  e2e4'',
      Resolved 0 \<lparr>bestmove = [], ponder = None, lines = Map.empty\<rparr>]
   \<and> at (split_whitespace_spec ''bestmove  e2e4'') 1 = Some ''e2e4''"
  by (simp add: handleOutput_def startsWith_def analyzing_session_def at_def or_empty_def
      split_whitespace_spec_def is_ws_def Let_def)

section \<open>Properties of analyze\<close>

text \<open>
  A call that reaches the guard while a resolver is registered is rejected there with the
  error ``Analysis already in progress'', and the session is what it was.
\<close>

lemma analyze_guard_rejects:
  assumes "waitReady s = Done" and "analysisPromise s \<noteq> None"
  shows "analyze_resume (analyze fen depth_n multipv_n r) s =
           ((analyze fen depth_n multipv_n r)\<lparr>c_stage := Thrown (Error ''Analysis already in progress'')\<rparr>, s)"
  using assms by (simp add: analyze_resume_def analyze_def)

text \<open>
  C2. A second call of \<open>analyze\<close>, made while the first has not resolved, is to fail and to
  leave the first alone. The guard is passed before \<open>await this.send(...)\<close> and the resolver
  is registered after it. Two calls made one after the other on a ready session, their
  pieces running in turn: both pass the guard, since no resolver is registered yet; the
  first registers resolver 0, the second replaces it with resolver 1; neither is rejected.
  The best-move line then resolves promise 1 and clears the registration, so resolver 0 is
  never called.
\<close>
theorem analyze_concurrent_calls_overwrite:
  "map c_stage (fst (analyze_resumes [0, 1]
      [analyze ''8/8/8/8/8/8/8/K6k w - - 0 1'' 10 1 0, analyze ''8/8/8/8/8/8/8/K6k w - - 0 1'' 12 3 1]
      ready_session)) = [AtSetoption, AtSetoption]
   \<and> map c_stage (fst (analyze_resumes [0, 1, 0, 1, 0, 1]
      [analyze ''8/8/8/8/8/8/8/K6k w - - 0 1'' 10 1 0, analyze ''8/8/8/8/8/8/8/K6k w - - 0 1'' 12 3 1]
      ready_session)) = [AtPosition, AtPosition]
   \<and> analysisPromise (snd (analyze_resumes [0, 1, 0, 1, 0]
      [analyze ''8/8/8/8/8/8/8/K6k w - - 0 1'' 10 1 0, analyze ''8/8/8/8/8/8/8/K6k w - - 0 1'' 12 3 1]
      ready_session)) = Some 0
   \<and> analysisPromise (snd (analyze_resumes [0, 1, 0, 1, 0, 1]
      [analyze ''8/8/8/8/8/8/8/K6k w - - 0 1'' 10 1 0, analyze ''8/8/8/8/8/8/8/K6k w - - 0 1'' 12 3 1]
      ready_session)) = Some 1
   \<and> fst (handleOutput ''bestmove e2e4'' (snd (analyze_resumes [0, 1, 0, 1, 0, 1, 0, 1, 0, 1]
      [analyze ''8/8/8/8/8/8/8/K6k w - - 0 1'' 10 1 0, analyze ''8/8/8/8/8/8/8/K6k w - - 0 1'' 12 3 1]
      ready_session))) =
       [Output ''bestmove e2e4'', Resolved 1 \<lparr>bestmove = ''e2e4'', ponder = None, lines = Map.empty\<rparr>]
   \<and> analysisPromise (snd (handleOutput ''bestmove e2e4'' (snd (analyze_resumes [0, 1, 0, 1, 0, 1, 0, 1, 0, 1]
      [analyze ''8/8/8/8/8/8/8/K6k w - - 0 1'' 10 1 0, analyze ''8/8/8/8/8/8/8/K6k w - - 0 1'' 12 3 1]
      ready_session)))) = None"
  by (simp add: analyze_resume_def analyze_def ready_session_def initialize_resume_def
      new_session_def waitReady_def send_def send_write_def handleOutput_def startsWith_def
      at_def or_empty_def Let_def)

section \<open>Properties of the pool\<close>

subsection \<open>The representation invariant\<close>






lemma replaceWorker_unfold:
  "\<exists>h. length h = length (heap p) \<and>
       (kill d = None \<and> d < length (heap p) \<longrightarrow> h ! d = snd (terminate None (heap p ! d))) \<and>
       (kill d \<noteq> None \<and> d < length (heap p) \<and> process (heap p ! d) \<longrightarrow> h = heap p) \<and>
       replaceWorker kill d p =
         addWorker (p\<lparr>all := removeAll d (all p), free := filter (\<lambda>e. e \<noteq> d) (free p), heap := h\<rparr>)"
proof (cases "d < length (heap p)")
  case False
  then show ?thesis
    by (intro exI [of _ "heap p"]) (simp add: replaceWorker_def Let_def at_def set_delete_def)
next
  case True
  obtain err s' where t: "terminate (kill d) (heap p ! d) = (err, s')"
    by (cases "terminate (kill d) (heap p ! d)")
  show ?thesis
  proof (cases err)
    case None
    with t True have "replaceWorker kill d p =
         addWorker (p\<lparr>all := removeAll d (all p), free := filter (\<lambda>e. e \<noteq> d) (free p),
                      heap := (heap p)[d := s']\<rparr>)"
      by (simp add: replaceWorker_def Let_def at_def set_delete_def)
    moreover have "kill d \<noteq> None \<and> process (heap p ! d) \<longrightarrow> False"
      using None t by (auto simp: terminate_def split: option.splits)
    moreover have "kill d = None \<longrightarrow> s' = snd (terminate None (heap p ! d))"
      using t by auto
    ultimately show ?thesis using True
      by (intro exI [of _ "(heap p)[d := s']"]) auto
  next
    case (Some e)
    with t True have "replaceWorker kill d p =
         addWorker (p\<lparr>all := removeAll d (all p), free := filter (\<lambda>e. e \<noteq> d) (free p),
                      heap := heap p\<rparr>)"
      by (simp add: replaceWorker_def Let_def at_def set_delete_def)
    moreover have "kill d \<noteq> None" using Some t by (auto simp: terminate_def split: if_splits option.splits)
    ultimately show ?thesis
      by (intro exI [of _ "heap p"]) auto
  qed
qed










subsection \<open>Free sessions and waiters exclude each other\<close>

text \<open>No operation leaves a free session and a queued resolver side by side.\<close>

lemma makeAvailable_excl:
  "free p = [] \<or> queue p = [] \<Longrightarrow>
   free (snd (makeAvailable e p)) = [] \<or> queue (snd (makeAvailable e p)) = []"
  by (auto simp: makeAvailable_def)

lemma addWorker_excl:
  "free p = [] \<or> queue p = [] \<Longrightarrow>
   free (snd (addWorker p)) = [] \<or> queue (snd (addWorker p)) = []"
  unfolding addWorker_def Let_def by (rule makeAvailable_excl) simp

lemma step_excl:
  assumes "free p = [] \<or> queue p = []"
  shows "free (snd (pool_step kill op p)) = [] \<or> queue (snd (pool_step kill op p)) = []"
proof (cases op)
  case Acquire
  then show ?thesis using assms by (auto simp: pool_step_def acquire_def)
next
  case (Release e)
  then show ?thesis using assms makeAvailable_excl [OF assms, of e]
    by (auto simp: pool_step_def release_def)
next
  case Terminate
  then show ?thesis using assms
    by (auto simp: pool_step_def pool_terminate_def split: prod.splits option.splits)
next
  case (EngineError d)
  obtain h where r: "replaceWorker kill d p =
         addWorker (p\<lparr>all := removeAll d (all p), free := filter (\<lambda>e. e \<noteq> d) (free p), heap := h\<rparr>)"
    using replaceWorker_unfold by blast
  have "free (snd (replaceWorker kill d p)) = [] \<or> queue (snd (replaceWorker kill d p)) = []"
    unfolding r using assms by (intro addWorker_excl) auto
  with EngineError assms show ?thesis by (simp add: pool_step_def)
qed

lemma run_excl:
  "free p = [] \<or> queue p = [] \<Longrightarrow>
   free (snd (pool_run kill ops p)) = [] \<or> queue (snd (pool_run kill ops p)) = []"
proof (induction ops arbitrary: p)
  case Nil
  then show ?case by simp
next
  case (Cons op ops)
  from Cons.IH [OF step_excl [OF Cons.prems, of kill op]] show ?case by (simp add: Let_def)
qed

lemma add_workers_queue: "queue p = [] \<Longrightarrow> queue (add_workers n p) = []"
  by (induction n arbitrary: p) (auto simp: addWorker_def makeAvailable_def Let_def)

lemma new_pool_queue: "queue (new_pool n) = []"
  by (simp add: new_pool_def add_workers_queue empty_pool_def)

subsection \<open>Acquisition and release\<close>

text \<open>
  C5. In every pool state: \<open>acquire\<close> with a session free returns at once the last one
  added to \<open>free\<close> and removes it, so that a session made available is the next one
  returned; with none free it queues its resolver behind the others. A session made
  available while a resolver is queued (by \<open>release\<close> of a member, by a new worker, by a
  replacement) is handed to the head of the queue and \<open>free\<close> receives nothing. From its
  construction on, a pool never has a free session and a queued resolver at once.
\<close>
theorem pool_lifo_fifo:
  "(free p \<noteq> [] \<longrightarrow> acquire p = (Got (last (free p)), p\<lparr>free := butlast (free p)\<rparr>))
   \<and> (queue p = [] \<longrightarrow> makeAvailable e p = ([], p\<lparr>free := free p @ [e]\<rparr>)
         \<and> acquire (snd (makeAvailable e p)) = (Got e, p))
   \<and> (free p = [] \<longrightarrow> fst (acquire p) = Waiting (promises p)
         \<and> queue (snd (acquire p)) = queue p @ [promises p])
   \<and> (queue p \<noteq> [] \<longrightarrow>
         makeAvailable e p = ([Handed (hd (queue p)) e], p\<lparr>queue := tl (queue p)\<rparr>)
         \<and> (e \<in> set (all p) \<longrightarrow>
              release e p = ([Handed (hd (queue p)) e], p\<lparr>queue := tl (queue p)\<rparr>))
         \<and> fst (addWorker p) = [Handed (hd (queue p)) (length (heap p))]
         \<and> free (snd (addWorker p)) = free p
         \<and> queue (snd (addWorker p)) = tl (queue p)
         \<and> fst (replaceWorker kill d p) = [Handed (hd (queue p)) (length (heap p))]
         \<and> free (snd (replaceWorker kill d p)) = filter (\<lambda>x. x \<noteq> d) (free p)
         \<and> queue (snd (replaceWorker kill d p)) = tl (queue p))
   \<and> (free (snd (pool_run kill ops (new_pool n))) = []
        \<or> queue (snd (pool_run kill ops (new_pool n))) = [])"
proof -
  obtain h where h: "length h = length (heap p)"
    and r: "replaceWorker kill d p =
         addWorker (p\<lparr>all := removeAll d (all p), free := filter (\<lambda>e. e \<noteq> d) (free p), heap := h\<rparr>)"
    using replaceWorker_unfold by blast
  have x: "free (snd (pool_run kill ops (new_pool n))) = []
        \<or> queue (snd (pool_run kill ops (new_pool n))) = []"
    by (rule run_excl) (simp add: new_pool_queue)
  show ?thesis unfolding r using h x
    by (simp add: acquire_def makeAvailable_def release_def addWorker_def Let_def)
qed

text \<open>A pool of two with both sessions free, and a pool of one with two resolvers queued.\<close>
theorem pool_lifo_fifo_witness:
  "free (new_pool 2) \<noteq> []
   \<and> acquire (new_pool 2) = (Got 1, new_pool 2\<lparr>free := [0]\<rparr>)
   \<and> queue (new_pool 2) = []
   \<and> acquire (snd (makeAvailable 7 (new_pool 2))) = (Got 7, new_pool 2)
   \<and> queue (snd (pool_run (\<lambda>e. None) [Acquire, Acquire, Acquire] (new_pool 1))) \<noteq> []
   \<and> 0 \<in> set (all (snd (pool_run (\<lambda>e. None) [Acquire, Acquire, Acquire] (new_pool 1))))
   \<and> release 0 (snd (pool_run (\<lambda>e. None) [Acquire, Acquire, Acquire] (new_pool 1)))
       = ([Handed 0 0], snd (pool_run (\<lambda>e. None) [Acquire, Acquire, Acquire] (new_pool 1))\<lparr>queue := [1]\<rparr>)
   \<and> fst (replaceWorker (\<lambda>e. None) 0 (snd (pool_run (\<lambda>e. None) [Acquire, Acquire, Acquire] (new_pool 1))))
       = [Handed 0 1]
   \<and> free (snd (replaceWorker (\<lambda>e. None) 0 (snd (pool_run (\<lambda>e. None) [Acquire, Acquire, Acquire] (new_pool 1)))))
       = []"
proof -
  let ?W = "snd (pool_run (\<lambda>e. None) [Acquire, Acquire, Acquire] (new_pool 1))"
  let ?K = "\<lambda>e::nat. None :: js_error option"
  have f: "free (new_pool 2) \<noteq> []" and q: "queue (new_pool 2) = []" by code_simp+
  have l: "last (free (new_pool 2)) = 1" and bl: "butlast (free (new_pool 2)) = [0]" by code_simp+
  have wq: "queue ?W \<noteq> []" and wa: "0 \<in> set (all ?W)" by code_simp+
  have wh: "hd (queue ?W) = 0" and wt: "tl (queue ?W) = [1]" and wl: "length (heap ?W) = 1"
    and wf: "filter (\<lambda>x. x \<noteq> 0) (free ?W) = []" by code_simp+
  note T = pool_lifo_fifo [of "new_pool 2" 7] and U = pool_lifo_fifo [of ?W 0 ?K 0]
  have "acquire (new_pool 2) =
          (Got (last (free (new_pool 2))), new_pool 2\<lparr>free := butlast (free (new_pool 2))\<rparr>)"
    using T f by blast
  then have 1: "acquire (new_pool 2) = (Got 1, new_pool 2\<lparr>free := [0]\<rparr>)"
    unfolding l bl .
  have 2: "acquire (snd (makeAvailable 7 (new_pool 2))) = (Got 7, new_pool 2)"
    using T q by blast
  have "release 0 ?W = ([Handed (hd (queue ?W)) 0], ?W\<lparr>queue := tl (queue ?W)\<rparr>)"
    using U wq wa by blast
  then have 3: "release 0 ?W = ([Handed 0 0], ?W\<lparr>queue := [1]\<rparr>)"
    unfolding wh wt .
  have "fst (replaceWorker ?K 0 ?W) = [Handed (hd (queue ?W)) (length (heap ?W))]"
    using U wq by blast
  then have 4: "fst (replaceWorker ?K 0 ?W) = [Handed 0 1]"
    unfolding wh wl .
  have "free (snd (replaceWorker ?K 0 ?W)) = filter (\<lambda>x. x \<noteq> 0) (free ?W)"
    using U wq by blast
  then have 5: "free (snd (replaceWorker ?K 0 ?W)) = []"
    unfolding wf .
  from f 1 q 2 wq wa 3 4 5 show ?thesis by blast
qed

text \<open>
  C9, as amended. \<open>release\<close> of a member that is already in \<open>free\<close>, with no resolver
  queued, appends it to \<open>free\<close> a second time. The next \<open>acquire\<close> returns that session and
  leaves the pool as it was before the release, so the \<open>acquire\<close> after it returns the
  session that was last in \<open>free\<close> before the release: the same session exactly when that
  one was it.
\<close>
theorem double_release_duplicates:
  assumes "e \<in> set (all p)" and "e \<in> set (free p)" and "queue p = []"
  shows "release e p = ([], p\<lparr>free := free p @ [e]\<rparr>)
       \<and> acquire (snd (release e p)) = (Got e, p)
       \<and> fst (acquire (snd (acquire (snd (release e p))))) = Got (last (free p))
       \<and> (fst (acquire (snd (acquire (snd (release e p))))) = Got e) = (last (free p) = e)"
proof -
  from assms(2) have ne: "free p \<noteq> []" by auto
  have r: "release e p = ([], p\<lparr>free := free p @ [e]\<rparr>)"
    using assms by (simp add: release_def makeAvailable_def)
  have a: "acquire (p\<lparr>free := free p @ [e]\<rparr>) = (Got e, p)"
    by (simp add: acquire_def)
  have b: "fst (acquire p) = Got (last (free p))" using ne by (simp add: acquire_def)
  show ?thesis using r a b by simp
qed

text \<open>A pool of one: the only session is returned twice.\<close>
theorem double_release_duplicates_witness:
  "0 \<in> set (all (new_pool 1)) \<and> 0 \<in> set (free (new_pool 1)) \<and> queue (new_pool 1) = []
   \<and> release 0 (new_pool 1) = ([], new_pool 1\<lparr>free := [0, 0]\<rparr>)
   \<and> fst (acquire (snd (release 0 (new_pool 1)))) = Got 0
   \<and> fst (acquire (snd (acquire (snd (release 0 (new_pool 1)))))) = Got 0"
proof -
  have a: "0 \<in> set (all (new_pool 1))" and f: "0 \<in> set (free (new_pool 1))"
    and q: "queue (new_pool 1) = []" by code_simp+
  have l: "last (free (new_pool 1)) = 0" and g: "free (new_pool 1) @ [0] = [0, 0]" by code_simp+
  note T = double_release_duplicates [OF a f q]
  have "release 0 (new_pool 1) = ([], new_pool 1\<lparr>free := free (new_pool 1) @ [0]\<rparr>)"
    using T by blast
  then have 1: "release 0 (new_pool 1) = ([], new_pool 1\<lparr>free := [0, 0]\<rparr>)"
    unfolding g .
  have "acquire (snd (release 0 (new_pool 1))) = (Got 0, new_pool 1)" using T by blast
  then have 2: "fst (acquire (snd (release 0 (new_pool 1)))) = Got 0" by (simp only: fst_conv)
  have "fst (acquire (snd (acquire (snd (release 0 (new_pool 1)))))) = Got (last (free (new_pool 1)))"
    using T by blast
  then have 3: "fst (acquire (snd (acquire (snd (release 0 (new_pool 1)))))) = Got 0"
    unfolding l .
  from a f q 1 2 3 show ?thesis by blast
qed

text \<open>
  C9 as it was stated has both calls return the released session. In a pool of two with
  both sessions free, after \<open>release\<close> of session 0 the first \<open>acquire\<close> returns 0 and the
  second returns 1.
\<close>
theorem double_release_counterexample:
  "0 \<in> set (all (new_pool 2)) \<and> 0 \<in> set (free (new_pool 2)) \<and> queue (new_pool 2) = []
   \<and> free (snd (release 0 (new_pool 2))) = [0, 1, 0]
   \<and> fst (acquire (snd (release 0 (new_pool 2)))) = Got 0
   \<and> fst (acquire (snd (acquire (snd (release 0 (new_pool 2)))))) = Got 1"
  by code_simp

subsection \<open>Crash recovery\<close>







subsection \<open>Termination of the pool\<close>

text \<open>
  A resolver is only ever called from the head of the queue, and a promise number is never
  used again: a resolver that has left the queue is not called any more.
\<close>

lemma makeAvailable_events:
  "set (fst (makeAvailable e p)) \<subseteq> {Handed w e | w. w \<in> set (queue p)}
   \<and> set (queue (snd (makeAvailable e p))) \<subseteq> set (queue p)
   \<and> promises (snd (makeAvailable e p)) = promises p"
  by (cases "queue p") (auto simp: makeAvailable_def)

lemma addWorker_events:
  "set (fst (addWorker p)) \<subseteq> {Handed w e | w e. w \<in> set (queue p)}
   \<and> set (queue (snd (addWorker p))) \<subseteq> set (queue p)
   \<and> promises (snd (addWorker p)) = promises p"
  unfolding addWorker_def Let_def
  using makeAvailable_events [of "length (heap p)"
      "p\<lparr>heap := heap p @ [new_session], all := set_add (length (heap p)) (all p)\<rparr>"]
  by auto

lemma replaceWorker_events:
  "set (fst (replaceWorker kill d p)) \<subseteq> {Handed w e | w e. w \<in> set (queue p)}
   \<and> set (queue (snd (replaceWorker kill d p))) \<subseteq> set (queue p)
   \<and> promises (snd (replaceWorker kill d p)) = promises p"
proof -
  obtain h where r: "replaceWorker kill d p =
         addWorker (p\<lparr>all := removeAll d (all p), free := filter (\<lambda>e. e \<noteq> d) (free p), heap := h\<rparr>)"
    using replaceWorker_unfold by blast
  show ?thesis unfolding r
    using addWorker_events [of "p\<lparr>all := removeAll d (all p), free := filter (\<lambda>e. e \<noteq> d) (free p), heap := h\<rparr>"]
    by simp
qed

lemma pool_terminate_fields:
  "queue (snd (pool_terminate kill p)) = queue p \<or> queue (snd (pool_terminate kill p)) = []"
  "promises (snd (pool_terminate kill p)) = promises p"
  by (auto simp: pool_terminate_def split: prod.splits option.splits)

lemma step_dropped:
  assumes "w \<notin> set (queue p)" and "w < promises p"
  shows "(\<forall>e. Handed w e \<notin> set (fst (pool_step kill op p)))
       \<and> w \<notin> set (queue (snd (pool_step kill op p)))
       \<and> w < promises (snd (pool_step kill op p))"
proof (cases op)
  case Acquire
  then show ?thesis using assms by (auto simp: pool_step_def acquire_def)
next
  case (Release e)
  then show ?thesis using assms makeAvailable_events [of e p]
    by (auto simp: pool_step_def release_def)
next
  case Terminate
  then show ?thesis using assms pool_terminate_fields [of kill p]
    by (auto simp: pool_step_def)
next
  case (EngineError e)
  then show ?thesis using assms replaceWorker_events [of kill e p]
    by (auto simp: pool_step_def)
qed

lemma run_dropped:
  "w \<notin> set (queue p) \<Longrightarrow> w < promises p \<Longrightarrow> Handed w e \<notin> set (fst (pool_run kill ops p))"
proof (induction ops arbitrary: p)
  case Nil
  then show ?case by simp
next
  case (Cons op ops)
  from step_dropped [OF Cons.prems, of kill op]
  have s: "\<forall>e. Handed w e \<notin> set (fst (pool_step kill op p))"
    and q: "w \<notin> set (queue (snd (pool_step kill op p)))"
    and n: "w < promises (snd (pool_step kill op p))" by auto
  from Cons.IH [OF q n] s show ?case
    by (simp add: Let_def)
qed

lemma step_calls:
  assumes "all p = []" and "free p = []" and "is_call op"
  shows "fst (pool_step kill op p) = [] \<and> all (snd (pool_step kill op p)) = []
       \<and> free (snd (pool_step kill op p)) = []"
  using assms
  by (cases op) (auto simp: pool_step_def acquire_def release_def pool_terminate_def)

lemma run_calls:
  "all p = [] \<Longrightarrow> free p = [] \<Longrightarrow> list_all is_call ops \<Longrightarrow>
   fst (pool_run kill ops p) = [] \<and> all (snd (pool_run kill ops p)) = []
   \<and> free (snd (pool_run kill ops p)) = []"
proof (induction ops arbitrary: p)
  case Nil
  then show ?case by simp
next
  case (Cons op ops)
  from Cons.prems have c: "is_call op" and cs: "list_all is_call ops" by simp_all
  from step_calls [OF Cons.prems(1,2) c, of kill]
  have s: "fst (pool_step kill op p) = []" and a: "all (snd (pool_step kill op p)) = []"
    and f: "free (snd (pool_step kill op p)) = []" by auto
  from Cons.IH [OF a f cs] s show ?case
    by (simp add: Let_def)
qed

text \<open>
  What holds of a pool whose \<open>terminate\<close> has returned: members, free sessions and queue are
  empty and no resolver was called; a resolver that was queued at that moment is never
  called, whatever happens later; and as long as only the pool's interface is called, no
  resolver is called at all and every \<open>acquire\<close> has to wait.
\<close>
lemma terminated_pool_hangs_without_error:
  assumes "pool_wf p" and "pool_terminate kill p = (None, p')"
  shows "all p' = [] \<and> free p' = [] \<and> queue p' = []
       \<and> fst (pool_step kill Terminate p) = []
       \<and> (\<forall>w \<in> set (queue p). \<forall>e. Handed w e \<notin> set (fst (pool_run kill' ops p')))
       \<and> (list_all is_call ops \<longrightarrow>
            fst (pool_run kill' ops p') = []
            \<and> fst (acquire (snd (pool_run kill' ops p'))) = Waiting (promises (snd (pool_run kill' ops p'))))"
proof -
  from assms(2) have c: "all p' = []" "free p' = []" "queue p' = []" and n: "promises p' = promises p"
    by (auto simp: pool_terminate_def split: prod.splits option.splits)
  have d: "\<forall>w \<in> set (queue p). \<forall>e. Handed w e \<notin> set (fst (pool_run kill' ops p'))"
  proof (intro ballI allI)
    fix w e assume "w \<in> set (queue p)"
    with assms(1) have "w < promises p'" by (simp add: pool_wf_def list_all_iff n)
    moreover have "w \<notin> set (queue p')" by (simp add: c)
    ultimately show "Handed w e \<notin> set (fst (pool_run kill' ops p'))" by (rule run_dropped [rotated])
  qed
  have r: "list_all is_call ops \<longrightarrow>
            fst (pool_run kill' ops p') = []
            \<and> fst (acquire (snd (pool_run kill' ops p'))) = Waiting (promises (snd (pool_run kill' ops p')))"
    using run_calls [OF c(1,2), of ops kill'] by (auto simp: acquire_def)
  show ?thesis using c d r by (simp add: pool_step_def)
qed

text \<open>A pool of one with a resolver queued, terminated, and two runs after that.\<close>
lemma terminated_pool_hangs_example:
  "pool_wf (snd (pool_run (\<lambda>e. None) [Acquire, Acquire] (new_pool 1)))
   \<and> queue (snd (pool_run (\<lambda>e. None) [Acquire, Acquire] (new_pool 1))) = [0]
   \<and> fst (pool_terminate (\<lambda>e. None) (snd (pool_run (\<lambda>e. None) [Acquire, Acquire] (new_pool 1)))) = None
   \<and> queue (snd (pool_terminate (\<lambda>e. None) (snd (pool_run (\<lambda>e. None) [Acquire, Acquire] (new_pool 1))))) = []
   \<and> (\<forall>e. Handed 0 e \<notin> set (fst (pool_run (\<lambda>e. None) [Acquire, EngineError 0, Release 1]
         (snd (pool_terminate (\<lambda>e. None) (snd (pool_run (\<lambda>e. None) [Acquire, Acquire] (new_pool 1))))))))
   \<and> list_all is_call [Acquire, Release 0, Acquire]
   \<and> fst (pool_run (\<lambda>e. None) [Acquire, Release 0, Acquire]
         (snd (pool_terminate (\<lambda>e. None) (snd (pool_run (\<lambda>e. None) [Acquire, Acquire] (new_pool 1)))))) = []"
proof -
  let ?P = "snd (pool_run (\<lambda>e. None) [Acquire, Acquire] (new_pool 1))"
  let ?K = "\<lambda>e::nat. None :: js_error option"
  have w: "pool_wf ?P" by code_simp
  have q: "queue ?P = [0]" by code_simp
  have t: "fst (pool_terminate ?K ?P) = None" by code_simp
  then have t': "pool_terminate ?K ?P = (None, snd (pool_terminate ?K ?P))"
    by (metis prod.collapse)
  have c: "list_all is_call [Acquire, Release 0, Acquire]" by simp
  from terminated_pool_hangs_without_error [OF w t', of ?K "[Acquire, EngineError 0, Release 1]"]
       terminated_pool_hangs_without_error [OF w t', of ?K "[Acquire, Release 0, Acquire]"] w q t c
  show ?thesis by (simp del: pool_run.simps)
qed

text \<open>
  C6. After \<open>terminate\<close>, an \<open>acquire\<close> is to stay pending for ever. The listener that
  \<open>#addWorker\<close> registered stays on the terminated sessions, and \<open>#replaceWorker\<close> does not
  ask whether the session is still a member, as \<open>release\<close> does. So in a terminated pool of
  one, an \<open>acquire\<close> waits with promise 0, and when session 0 then reports an error, a new
  session 1 is constructed and handed to that promise.
\<close>
theorem terminated_pool_acquire_resolves:
  "fst (pool_terminate (\<lambda>e. None) (new_pool 1)) = None
   \<and> fst (acquire (snd (pool_terminate (\<lambda>e. None) (new_pool 1)))) = Waiting 0
   \<and> fst (pool_run (\<lambda>e. None) [Acquire, EngineError 0] (snd (pool_terminate (\<lambda>e. None) (new_pool 1))))
       = [Handed 0 1]"
  by code_simp

end
